theory Spec2Isabelle
  imports Main "HOL-Library.Sublist" "HOL-Library.AList"
begin

section \<open>Python values the changelog code relies on\<close>

text \<open>
  The exceptions that the modelled functions of \<^verbatim>\<open>keepachangelog/_changelog.py\<close> can raise.
  A raising call is the left injection of a sum.
\<close>

datatype error = IndexError | AttributeError | UnboundLocalError | NameError | TypeError

text \<open>Sequencing of two computations that may raise: the first exception ends both.\<close>

definition and_then :: "error + 'a \<Rightarrow> ('a \<Rightarrow> error + 'b) \<Rightarrow> error + 'b" where
  "and_then r f = (case r of Inl e \<Rightarrow> Inl e | Inr x \<Rightarrow> f x)"

text \<open>\<^verbatim>\<open>xs[i]\<close> for an index \<open>i \<ge> 0\<close>: out of range raises \<^verbatim>\<open>IndexError\<close>.\<close>

definition item :: "'a list \<Rightarrow> nat \<Rightarrow> error + 'a" where
  "item xs i = (if i < length xs then Inr (xs ! i) else Inl IndexError)"

text \<open>
  Text is a list of characters with code points below 256. \<^verbatim>\<open>str.lstrip(chars)\<close> and
  \<^verbatim>\<open>str.rstrip(chars)\<close> remove the longest run of characters taken from \<^verbatim>\<open>chars\<close>.
\<close>

definition lstrip :: "string \<Rightarrow> string \<Rightarrow> string" where
  "lstrip chars s = dropWhile (\<lambda>c. c \<in> set chars) s"

definition rstrip :: "string \<Rightarrow> string \<Rightarrow> string" where
  "rstrip chars s = rev (dropWhile (\<lambda>c. c \<in> set chars) (rev s))"

definition strip :: "string \<Rightarrow> string \<Rightarrow> string" where
  "strip chars s = rstrip chars (lstrip chars s)"

text \<open>
  \<^verbatim>\<open>s.replace(old, new)\<close>: the occurrences of \<^verbatim>\<open>old\<close> are found from the left and do not
  overlap. With an empty \<^verbatim>\<open>old\<close>, Python puts \<^verbatim>\<open>new\<close> before every character and at the end.
\<close>

fun replace_scan :: "string \<Rightarrow> string \<Rightarrow> string \<Rightarrow> string" where
  "replace_scan old new [] = []"
| "replace_scan old new (c # cs) =
     (if old \<noteq> [] \<and> prefix old (c # cs)
      then new @ replace_scan old new (drop (length old) (c # cs))
      else c # replace_scan old new cs)"

definition str_replace :: "string \<Rightarrow> string \<Rightarrow> string \<Rightarrow> string" where
  "str_replace old new s =
     (if old = [] then new @ concat (map (\<lambda>c. c # new) s) else replace_scan old new s)"

text \<open>
  \<^verbatim>\<open>release_version\<close> takes \<^verbatim>\<open>current_version: Optional[str]\<close>; \<^verbatim>\<open>str.replace\<close>
  raises \<^verbatim>\<open>TypeError\<close> when either argument is \<^verbatim>\<open>None\<close>.
\<close>

fun replace_opt :: "string option \<Rightarrow> string option \<Rightarrow> string \<Rightarrow> error + string" where
  "replace_opt (Some old) (Some new) s = Inr (str_replace old new s)"
| "replace_opt _ _ s = Inl TypeError"

text \<open>
  \<^verbatim>\<open>s.rpartition(sep)\<close> restricted to the case where it finds \<^verbatim>\<open>sep\<close>: the text before and
  after the rightmost occurrence. It is how a greedy \<^verbatim>\<open>.*\<close> followed by a literal splits a text.
\<close>

fun rpartition :: "string \<Rightarrow> string \<Rightarrow> (string \<times> string) option" where
  "rpartition sep [] = (if sep = [] then Some ([], []) else None)"
| "rpartition sep (c # cs) =
     (case rpartition sep cs of
        Some (a, b) \<Rightarrow> Some (c # a, b)
      | None \<Rightarrow> if prefix sep (c # cs) then Some ([], drop (length sep) (c # cs)) else None)"

text \<open>
  The class \<^verbatim>\<open>\w\<close> of a Python 3 \<^verbatim>\<open>str\<close> pattern, on the code points below 256: the ASCII
  letters, digits and underscore, and the Latin-1 letters and numeric characters.
\<close>

definition is_word :: "char \<Rightarrow> bool" where
  "is_word c =
     (let n = (of_char c :: nat) in
        (48 \<le> n \<and> n \<le> 57) \<or> (65 \<le> n \<and> n \<le> 90) \<or> n = 95 \<or> (97 \<le> n \<and> n \<le> 122)
        \<or> n = 170 \<or> n = 178 \<or> n = 179 \<or> n = 181 \<or> n = 185 \<or> n = 186
        \<or> (188 \<le> n \<and> n \<le> 190) \<or> (192 \<le> n \<and> n \<le> 214) \<or> (216 \<le> n \<and> n \<le> 246)
        \<or> 248 \<le> n)"

text \<open>
  The changelog file is opened in text mode with the default \<^verbatim>\<open>newline=None\<close>. On
  reading, the line endings \<^verbatim>\<open>\r\n\<close> and \<^verbatim>\<open>\r\<close> of the file are translated to
  \<^verbatim>\<open>\n\<close> before the program sees the text.
\<close>

fun universal_newlines :: "string \<Rightarrow> string" where
  "universal_newlines [] = []"
| "universal_newlines [c] = (if c = CHR 0x0D then ''\<newline>'' else [c])"
| "universal_newlines (c # d # cs) =
     (if c = CHR 0x0D \<and> d = CHR ''\<newline>'' then CHR ''\<newline>'' # universal_newlines cs
      else if c = CHR 0x0D then CHR ''\<newline>'' # universal_newlines (d # cs)
      else c # universal_newlines (d # cs))"

text \<open>
  Iterating over the file, and \<^verbatim>\<open>readlines\<close>, cut the translated text after every newline
  and keep the newline in the line.
\<close>

fun split_lines :: "string \<Rightarrow> string list" where
  "split_lines [] = []"
| "split_lines (c # cs) =
     (if c = CHR ''\<newline>'' then [c] # split_lines cs
      else (case split_lines cs of [] \<Rightarrow> [[c]] | l # ls \<Rightarrow> (c # l) # ls))"

definition readlines :: "string \<Rightarrow> string list" where
  "readlines file = split_lines (universal_newlines file)"

text \<open>
  On writing, every \<^verbatim>\<open>\n\<close> is written as the line separator of the platform,
  \<^verbatim>\<open>os.linesep\<close> (\<^verbatim>\<open>\n\<close> on POSIX, \<^verbatim>\<open>\r\n\<close> on Windows); \<^verbatim>\<open>writelines\<close> writes the
  lines one after the other.
\<close>

definition write_text :: "string \<Rightarrow> string \<Rightarrow> string" where
  "write_text linesep s = concat (map (\<lambda>c. if c = CHR ''\<newline>'' then linesep else [c]) s)"

definition writelines :: "string \<Rightarrow> string list \<Rightarrow> string" where
  "writelines linesep ls = concat (map (write_text linesep) ls)"

text \<open>
  \<^verbatim>\<open>datetime.date.today().isoformat()\<close>: the date is the one input of the environment, and
  \<^verbatim>\<open>isoformat\<close> prints it as \<^verbatim>\<open>YYYY-MM-DD\<close> (Python's years run from 1 to 9999).
\<close>

record date =
  year :: nat
  month :: nat
  day :: nat

definition digit :: "nat \<Rightarrow> char" where
  "digit n = ''0123456789'' ! (n mod 10)"

definition isoformat :: "date \<Rightarrow> string" where
  "isoformat d =
     [digit (year d div 1000), digit (year d div 100), digit (year d div 10), digit (year d)]
     @ ''-'' @ [digit (month d div 10), digit (month d)]
     @ ''-'' @ [digit (day d div 10), digit (day d)]"

section \<open>The release promoter: \<^verbatim>\<open>release_version\<close>\<close>

text \<open>
  \<^verbatim>\<open>re.fullmatch(r"^## \[Unreleased\].*$", line, re.DOTALL)\<close>: with \<^verbatim>\<open>DOTALL\<close> the
  \<^verbatim>\<open>.*\<close> takes any rest, newlines too, so the pattern matches the lines that start with the
  literal.
\<close>

definition unreleased_heading :: "string \<Rightarrow> bool" where
  "unreleased_heading line = prefix ''## [Unreleased]'' line"

text \<open>\<^verbatim>\<open>unreleased_link_pattern = re.compile(r"^\[Unreleased\]: (.*)$", re.DOTALL)\<close>\<close>

definition unreleased_link_pattern :: "string \<Rightarrow> bool" where
  "unreleased_link_pattern line = prefix ''[Unreleased]: '' line"

text \<open>
  \<^verbatim>\<open>re.fullmatch(r"^.*/(.*)\.\.\.(\w*).*$", line, re.DOTALL)\<close>, with its two groups. The
  matcher backtracks from the longest candidates: group 1 ends at the rightmost \<^verbatim>\<open>...\<close> of
  the line and starts after the last slash before it; group 2 is the longest run of word
  characters after that \<^verbatim>\<open>...\<close>. No match is \<open>None\<close>.
\<close>

definition unreleased_compare_pattern :: "string \<Rightarrow> (string \<times> string) option" where
  "unreleased_compare_pattern line =
     (case rpartition ''...'' line of
        None \<Rightarrow> None
      | Some (left, right) \<Rightarrow>
          (case rpartition ''/'' left of
             None \<Rightarrow> None
           | Some (start, group1) \<Rightarrow> Some (group1, takeWhile is_word right)))"

text \<open>
  One iteration of the loop of \<^verbatim>\<open>release_version\<close>: the lines it appends for one input
  line, or the exception it raises.
\<close>

definition promote_line :: "date \<Rightarrow> string option \<Rightarrow> string \<Rightarrow> string \<Rightarrow> error + string list" where
  "promote_line today current_version new_version line =
     (if unreleased_heading line
      then Inr [line, ''\<newline>'', ''## ['' @ new_version @ ''] - '' @ isoformat today @ ''\<newline>'']
      else if unreleased_link_pattern line
      then (case unreleased_compare_pattern line of
              Some (current_tag, unreleased_tag) \<Rightarrow>
                and_then (replace_opt current_version (Some new_version) line)
                  (\<lambda>new_unreleased_link.
                and_then (replace_opt current_version (Some new_version) current_tag)
                  (\<lambda>new_tag.
                and_then (replace_opt (Some new_version) current_version line)
                  (\<lambda>restored.
                     Inr [new_unreleased_link,
                          str_replace ''Unreleased'' new_version
                            (str_replace unreleased_tag new_tag restored)])))
            | None \<Rightarrow> Inr [line, str_replace ''Unreleased'' new_version line])
      else Inr [line])"

text \<open>The loop over the lines read, with the list \<^verbatim>\<open>lines\<close> it builds.\<close>

fun release_loop ::
  "date \<Rightarrow> string option \<Rightarrow> string \<Rightarrow> string list \<Rightarrow> string list \<Rightarrow> error + string list" where
  "release_loop today current_version new_version lines [] = Inr lines"
| "release_loop today current_version new_version lines (line # rest) =
     (case promote_line today current_version new_version line of
        Inl e \<Rightarrow> Inl e
      | Inr out \<Rightarrow> release_loop today current_version new_version (lines @ out) rest)"

text \<open>
  \<^verbatim>\<open>release_version\<close> on the content of the changelog file, with the date of the day and
  the line separator of the platform: the content it writes back, or the exception it raises
  (the file is opened for writing only after the loop, so an exception leaves it as it was).
\<close>

definition release_version ::
  "date \<Rightarrow> string \<Rightarrow> string \<Rightarrow> string option \<Rightarrow> string \<Rightarrow> error + string" where
  "release_version today linesep changelog current_version new_version =
     (case release_loop today current_version new_version [] (readlines changelog) of
        Inl e \<Rightarrow> Inl e
      | Inr lines \<Rightarrow> Inr (writelines linesep lines))"

section \<open>The parsed document\<close>

text \<open>
  The tokens of the Markdown parser (mistletoe), as far as the code reads them. A span token
  is a \<^verbatim>\<open>RawText\<close> with its \<^verbatim>\<open>content\<close>, a \<^verbatim>\<open>Link\<close> with its children and its
  target, or a token of another class, given with its \<^verbatim>\<open>content\<close> attribute when that class
  has one. A list item is given by the text that \<^verbatim>\<open>BaseRenderer().render\<close> produces for it.
  A block is a \<^verbatim>\<open>Heading\<close> with its level and children, a \<^verbatim>\<open>List\<close> with its items, or some
  other block token; \<open>Str\<close> is a \<^verbatim>\<open>str\<close> standing where a block is expected, which
  \<^verbatim>\<open>to_raw_dict\<close> passes to the classifiers.
\<close>

datatype span = RawText string | Link "span list" string | OtherSpan "string option"

datatype list_item = ListItem string

datatype block = Heading nat "span list" | List_block "list_item list" | Other_block | Str string

text \<open>\<^verbatim>\<open>token.content\<close>: a token without the attribute raises \<^verbatim>\<open>AttributeError\<close>.\<close>

fun token_content :: "span \<Rightarrow> error + string" where
  "token_content (RawText c) = Inr c"
| "token_content (Link children target) = Inl AttributeError"
| "token_content (OtherSpan None) = Inl AttributeError"
| "token_content (OtherSpan (Some c)) = Inr c"

text \<open>The classifiers: \<^verbatim>\<open>isinstance\<close> is false on every object of another class.\<close>

fun is_release :: "block \<Rightarrow> bool" where
  "is_release (Heading level children) = (level = 2)"
| "is_release _ = False"

fun is_category :: "block \<Rightarrow> bool" where
  "is_category (Heading level children) = (level = 3)"
| "is_category _ = False"

fun is_list :: "block \<Rightarrow> bool" where
  "is_list (List_block items) = True"
| "is_list _ = False"

text \<open>
  \<^verbatim>\<open>section.children\<close>, read by the code only after \<^verbatim>\<open>is_release\<close> or \<^verbatim>\<open>is_category\<close>
  (a heading's spans) or after \<^verbatim>\<open>is_list\<close> (a list's items).
\<close>

fun heading_children :: "block \<Rightarrow> span list" where
  "heading_children (Heading level children) = children"
| "heading_children _ = []"

fun list_children :: "block \<Rightarrow> list_item list" where
  "list_children (List_block items) = items"
| "list_children _ = []"

section \<open>The version and date extractor\<close>

definition unlink :: "string \<Rightarrow> string" where
  "unlink v = rstrip '']'' (lstrip ''['' v)"

definition extract_date :: "string \<Rightarrow> string" where
  "extract_date d = (if d = [] then d else rstrip '' )'' (lstrip '' -('' d))"

text \<open>
  Lines 22 to 26 of \<^verbatim>\<open>add_release\<close>: the version a heading's first token gives. A token
  that is neither a \<^verbatim>\<open>RawText\<close> nor a \<^verbatim>\<open>Link\<close> leaves the name \<^verbatim>\<open>version\<close> unbound,
  which is \<open>None\<close> here.
\<close>

definition version_of_token :: "span \<Rightarrow> error + string option" where
  "version_of_token version_token =
     (case version_token of
        RawText c \<Rightarrow> Inr (Some (unlink c))
      | Link children target \<Rightarrow>
          and_then (item children 0) (\<lambda>label. and_then (token_content label) (\<lambda>c. Inr (Some c)))
      | OtherSpan c \<Rightarrow> Inr None)"

text \<open>
  Lines 20 to 32 of \<^verbatim>\<open>add_release\<close>, before the call of \<^verbatim>\<open>setdefault\<close>: the version and
  the release date of a heading, \<open>None\<close> when the function returns its empty dict at once,
  or the exception raised. The unbound \<^verbatim>\<open>version\<close> is read only after
  \<^verbatim>\<open>section.children[1].content\<close>.
\<close>

definition release_fields :: "bool \<Rightarrow> span list \<Rightarrow> error + (string \<times> string) option" where
  "release_fields show_unreleased children =
     (if length children = 1 \<and> \<not> show_unreleased then Inr None
      else and_then (item children 0) (\<lambda>version_token.
           and_then (version_of_token version_token) (\<lambda>version.
           and_then (item children 1) (\<lambda>date_token.
           and_then (token_content date_token) (\<lambda>release_date.
             (case version of
                None \<Rightarrow> Inl UnboundLocalError
              | Some v \<Rightarrow> Inr (Some (v, extract_date release_date))))))))"

section \<open>The release aggregator: \<^verbatim>\<open>to_dict\<close>\<close>

text \<open>
  The dicts and lists that \<^verbatim>\<open>to_dict\<close> builds are shared: \<^verbatim>\<open>current_release\<close> is a
  reference to a dict that may also be a value of \<^verbatim>\<open>changes\<close>, and \<^verbatim>\<open>category\<close> is whatever
  \<^verbatim>\<open>setdefault\<close> returned, a reference to a list of a release or one of its strings. So
  the objects live in a store, addressed by their position, and a dict is an association
  list in insertion order whose values are strings or references to lists.
\<close>

datatype pyval = PStr string | PList nat

type_synonym pydict = "(string \<times> pyval) list"

record state =
  dict_heap :: "pydict list"
  list_heap :: "string list list"
  changes :: "(string \<times> nat) list"
  current_release :: nat
  category :: pyval

text \<open>
  The start of \<^verbatim>\<open>to_dict\<close>: \<^verbatim>\<open>changes = {}\<close>, \<^verbatim>\<open>current_release = {}\<close> (the dict at
  address 0) and \<^verbatim>\<open>category = []\<close> (the list at address 0).
\<close>

definition initial :: state where
  "initial = \<lparr>dict_heap = [[]], list_heap = [[]], changes = [], current_release = 0,
              category = PList 0\<rparr>"

text \<open>Python's truth value of a dict, and of a string or list: empty is false.\<close>

definition dict_truthy :: "state \<Rightarrow> nat \<Rightarrow> bool" where
  "dict_truthy st a = (dict_heap st ! a \<noteq> [])"

definition truthy :: "state \<Rightarrow> pyval \<Rightarrow> bool" where
  "truthy st v = (case v of PStr s \<Rightarrow> s \<noteq> [] | PList a \<Rightarrow> list_heap st ! a \<noteq> [])"

text \<open>
  \<^verbatim>\<open>add_release\<close>: the new store and the address of the dict returned. The early
  \<^verbatim>\<open>return {}\<close> allocates a dict that \<^verbatim>\<open>changes\<close> does not hold; \<^verbatim>\<open>setdefault\<close> returns
  the dict already stored under the version, or stores and returns the new one.
\<close>

definition add_release :: "state \<Rightarrow> span list \<Rightarrow> bool \<Rightarrow> error + state \<times> nat" where
  "add_release st children show_unreleased =
     and_then (release_fields show_unreleased children) (\<lambda>fields.
       (case fields of
          None \<Rightarrow> Inr (st\<lparr>dict_heap := dict_heap st @ [[]]\<rparr>, length (dict_heap st))
        | Some (version, release_date) \<Rightarrow>
            (case map_of (changes st) version of
               Some existing \<Rightarrow> Inr (st, existing)
             | None \<Rightarrow>
                 Inr (st\<lparr>dict_heap := dict_heap st @
                            [[(''version'', PStr version), (''release_date'', PStr release_date)]],
                         changes := changes st @ [(version, length (dict_heap st))]\<rparr>,
                      length (dict_heap st)))))"

text \<open>
  \<^verbatim>\<open>add_category\<close>: \<^verbatim>\<open>release.setdefault(category, [])\<close> on the dict at address
  \<open>release\<close>; the value returned is the one already under the key, whatever it is, or the
  new empty list.
\<close>

definition add_category :: "state \<Rightarrow> nat \<Rightarrow> span list \<Rightarrow> error + state \<times> pyval" where
  "add_category st release children =
     and_then (item children 0) (\<lambda>first.
     and_then (token_content first) (\<lambda>name.
       (case map_of (dict_heap st ! release) name of
          Some existing \<Rightarrow> Inr (st, existing)
        | None \<Rightarrow>
            Inr (st\<lparr>list_heap := list_heap st @ [[]],
                    dict_heap := (dict_heap st)
                      [release := dict_heap st ! release @ [(name, PList (length (list_heap st)))]]\<rparr>,
                 PList (length (list_heap st))))))"

fun extract_change_entry :: "list_item \<Rightarrow> string" where
  "extract_change_entry (ListItem rendered) = rendered"

text \<open>
  \<^verbatim>\<open>add_change_list\<close>: the loop appends to the list that \<^verbatim>\<open>category\<close> refers to; a
  \<^verbatim>\<open>str\<close> has no \<^verbatim>\<open>append\<close>.
\<close>

fun add_change_list :: "state \<Rightarrow> pyval \<Rightarrow> list_item list \<Rightarrow> error + state" where
  "add_change_list st cat [] = Inr st"
| "add_change_list st (PStr s) (list_entry # rest) = Inl AttributeError"
| "add_change_list st (PList a) (list_entry # rest) =
     add_change_list
       (st\<lparr>list_heap := (list_heap st)[a := list_heap st ! a @ [extract_change_entry list_entry]]\<rparr>)
       (PList a) rest"

text \<open>The body of the loop of \<^verbatim>\<open>to_dict\<close>, for one section.\<close>

definition to_dict_step :: "bool \<Rightarrow> state \<Rightarrow> block \<Rightarrow> error + state" where
  "to_dict_step show_unreleased st section =
     (if is_release section
      then and_then (add_release st (heading_children section) show_unreleased)
             (\<lambda>(st', r). Inr (st'\<lparr>current_release := r\<rparr>))
      else if is_category section
      then and_then (add_category st (current_release st) (heading_children section))
             (\<lambda>(st', c). Inr (st'\<lparr>category := c\<rparr>))
      else if is_list section \<and> dict_truthy st (current_release st) \<and> truthy st (category st)
      then add_change_list st (category st) (list_children section)
      else Inr st)"

fun to_dict_loop :: "bool \<Rightarrow> state \<Rightarrow> block list \<Rightarrow> error + state" where
  "to_dict_loop show_unreleased st [] = Inr st"
| "to_dict_loop show_unreleased st (section # rest) =
     (case to_dict_step show_unreleased st section of
        Inl e \<Rightarrow> Inl e
      | Inr st' \<Rightarrow> to_dict_loop show_unreleased st' rest)"

text \<open>
  The value that \<^verbatim>\<open>to_dict\<close> returns: the dict \<^verbatim>\<open>changes\<close> with every reference
  followed, in insertion order.
\<close>

datatype release_value = Text string | Entries "string list"

type_synonym changelog = "(string \<times> (string \<times> release_value) list) list"

definition field_of :: "state \<Rightarrow> pyval \<Rightarrow> release_value" where
  "field_of st v = (case v of PStr s \<Rightarrow> Text s | PList a \<Rightarrow> Entries (list_heap st ! a))"

definition returned :: "state \<Rightarrow> changelog" where
  "returned st =
     map (\<lambda>(version, a). (version, map (\<lambda>(k, v). (k, field_of st v)) (dict_heap st ! a)))
       (changes st)"

text \<open>\<^verbatim>\<open>to_dict\<close> on the parsed document \<^verbatim>\<open>Document(change_log).children\<close>.\<close>

definition to_dict :: "block list \<Rightarrow> bool \<Rightarrow> error + changelog" where
  "to_dict parsed_changelog show_unreleased =
     (case to_dict_loop show_unreleased initial parsed_changelog of
        Inl e \<Rightarrow> Inl e
      | Inr st \<Rightarrow> Inr (returned st))"

section \<open>The raw read path: \<^verbatim>\<open>to_raw_dict\<close>\<close>

text \<open>
  \<^verbatim>\<open>to_raw_dict\<close> passes each stripped line, a \<^verbatim>\<open>str\<close>, to \<^verbatim>\<open>is_release\<close> and
  \<^verbatim>\<open>is_category\<close>, and then calls \<^verbatim>\<open>is_information\<close>, a name that the module neither
  defines nor imports: looking it up raises \<^verbatim>\<open>NameError\<close>. In the release branch
  \<^verbatim>\<open>add_release\<close> would read \<^verbatim>\<open>section.children\<close> of a \<^verbatim>\<open>str\<close>. The category branch
  stores \<^verbatim>\<open>current_release.get("raw", "") + line\<close> under the key \<^verbatim>\<open>"raw"\<close>.
\<close>

definition raw_text :: "pydict \<Rightarrow> string" where
  "raw_text d = (case map_of d ''raw'' of Some (PStr s) \<Rightarrow> s | _ \<Rightarrow> [])"

definition store_raw :: "state \<Rightarrow> string \<Rightarrow> state" where
  "store_raw st line =
     st\<lparr>dict_heap := (dict_heap st)
          [current_release st :=
             AList.update ''raw'' (PStr (raw_text (dict_heap st ! current_release st) @ line))
               (dict_heap st ! current_release st)]\<rparr>"

fun to_raw_dict_loop :: "state \<Rightarrow> string list \<Rightarrow> error + state" where
  "to_raw_dict_loop st [] = Inr st"
| "to_raw_dict_loop st (line # rest) =
     (if is_release (Str (strip '' \<newline>'' line)) then Inl AttributeError
      else if is_category (Str (strip '' \<newline>'' line))
      then to_raw_dict_loop (store_raw st line) rest
      else Inl NameError)"

definition to_raw_dict :: "string \<Rightarrow> error + changelog" where
  "to_raw_dict changelog =
     (case to_raw_dict_loop initial (readlines changelog) of
        Inl e \<Rightarrow> Inl e
      | Inr st \<Rightarrow> Inr (returned st))"

section \<open>The releases of a document\<close>

text \<open>
  What the properties of \<^verbatim>\<open>to_dict\<close> are stated with. A release heading bears a version
  when \<^verbatim>\<open>add_release\<close> gets one from it: \<open>registered\<close> is that version with its date, for
  one section, and nothing for a section that is no release heading, for a heading that
  \<^verbatim>\<open>add_release\<close> skips before it reads the version token, and for one on which it raises.
  \<open>release_headings\<close> lists them in document order, and \<open>first_seen\<close> keeps the first
  occurrence of every element of a list, in the order of the list.
\<close>

definition registered :: "bool \<Rightarrow> block \<Rightarrow> (string \<times> string) list" where
  "registered show_unreleased section =
     (if is_release section
      then (case release_fields show_unreleased (heading_children section) of
              Inr (Some found) \<Rightarrow> [found]
            | _ \<Rightarrow> [])
      else [])"

definition release_headings :: "bool \<Rightarrow> block list \<Rightarrow> (string \<times> string) list" where
  "release_headings show_unreleased document = concat (map (registered show_unreleased) document)"

definition first_seen :: "'a list \<Rightarrow> 'a list" where
  "first_seen xs = rev (remdups (rev xs))"

text \<open>
  The invariant of the loop of \<^verbatim>\<open>to_dict\<close>, after the sections whose registered headings
  are \<open>hs\<close>: the keys of \<^verbatim>\<open>changes\<close> are the versions of \<open>hs\<close> in the order they were first
  seen, every key refers to a dict of the store that holds the key as its version and the
  date of the first heading with that version, and \<^verbatim>\<open>current_release\<close> refers to a dict
  of the store.
\<close>

definition registry_ok :: "(string \<times> string) list \<Rightarrow> state \<Rightarrow> bool" where
  "registry_ok hs st =
     (map fst (changes st) = first_seen (map fst hs)
      \<and> current_release st < length (dict_heap st)
      \<and> list_all (\<lambda>(v, a). a < length (dict_heap st)
                   \<and> map_of (dict_heap st ! a) ''version'' = Some (PStr v)
                   \<and> map_of (dict_heap st ! a) ''release_date'' = map_option PStr (map_of hs v))
           (changes st))"

text \<open>
  A second invariant of the loop: every reference to a list or a dict is an address of the
  store, and every list of the store is empty.
\<close>

definition ref_ok :: "state \<Rightarrow> pyval \<Rightarrow> bool" where
  "ref_ok st v = (case v of PStr s \<Rightarrow> True | PList a \<Rightarrow> a < length (list_heap st))"

definition lists_empty :: "state \<Rightarrow> bool" where
  "lists_empty st =
     (list_all (\<lambda>l. l = []) (list_heap st)
      \<and> ref_ok st (category st)
      \<and> list_all (\<lambda>d. list_all (\<lambda>(k, v). ref_ok st v) d) (dict_heap st)
      \<and> current_release st < length (dict_heap st)
      \<and> list_all (\<lambda>(v, a). a < length (dict_heap st)) (changes st))"

section \<open>Properties of the release promoter\<close>

subsection \<open>Reading and writing the file\<close>

lemma concat_split_lines: "concat (split_lines s) = s"
  by (induction s) (auto split: list.splits)

lemma split_lines_empty: "split_lines s = [] \<longleftrightarrow> s = []"
  by (cases s) (auto split: list.splits)

lemma universal_newlines_empty: "universal_newlines s = [] \<longleftrightarrow> s = []"
  by (induction s rule: universal_newlines.induct) auto

lemma readlines_empty: "readlines s = [] \<longleftrightarrow> s = []"
  by (simp add: readlines_def split_lines_empty universal_newlines_empty)

lemma universal_newlines_plain: "CHR 0x0D \<notin> set s \<Longrightarrow> universal_newlines s = s"
  by (induction s rule: universal_newlines.induct) auto

lemma write_text_newline: "write_text ''\<newline>'' s = s"
  by (induction s) (auto simp: write_text_def)

lemma write_text_append: "write_text linesep (a @ b) = write_text linesep a @ write_text linesep b"
  by (simp add: write_text_def)

lemma writelines_concat: "writelines linesep ls = write_text linesep (concat ls)"
  by (induction ls) (simp_all add: writelines_def write_text_append, simp add: write_text_def)

lemma write_text_explicit:
  "write_text linesep s = concat (map (\<lambda>c. if c = CHR ''\<newline>'' then linesep else [c]) s)"
  by (simp add: write_text_def)

lemma universal_newlines_crlf:
  "CHR 0x0D \<notin> set l \<Longrightarrow>
   universal_newlines (l @ CHR 0x0D # CHR ''\<newline>'' # rest) = l @ CHR ''\<newline>'' # universal_newlines rest"
proof (induction l)
  case Nil
  show ?case by simp
next
  case (Cons c l)
  then show ?case by (cases l) auto
qed

lemma universal_newlines_crlf_lines:
  "\<forall>l \<in> set ls. CHR 0x0D \<notin> set l \<Longrightarrow>
   universal_newlines (concat (map (\<lambda>l. l @ [CHR 0x0D, CHR ''\<newline>'']) ls))
     = concat (map (\<lambda>l. l @ ''\<newline>'') ls)"
  by (induction ls) (simp_all add: universal_newlines_crlf)

lemma write_text_plain: "CHR ''\<newline>'' \<notin> set l \<Longrightarrow> write_text linesep l = l"
  by (induction l) (auto simp: write_text_def)

lemma write_text_lines:
  "\<forall>l \<in> set ls. CHR ''\<newline>'' \<notin> set l \<Longrightarrow>
   write_text linesep (concat (map (\<lambda>l. l @ ''\<newline>'') ls)) = concat (map (\<lambda>l. l @ linesep) ls)"
proof (induction ls)
  case Nil
  show ?case by (simp add: write_text_def)
next
  case (Cons l ls)
  have "write_text linesep (l @ ''\<newline>'') = l @ linesep"
    using Cons.prems by (simp add: write_text_append write_text_plain, simp add: write_text_def)
  then show ?case
    using Cons by (simp add: write_text_append del: append.simps append_assoc)
qed

subsection \<open>Lines that match neither pattern\<close>

lemma promote_line_other:
  "\<not> unreleased_heading line \<Longrightarrow> \<not> unreleased_link_pattern line \<Longrightarrow>
   promote_line today cv nv line = Inr [line]"
  by (simp add: promote_line_def)

lemma release_loop_unchanged:
  "\<forall>line \<in> set ls. \<not> unreleased_heading line \<and> \<not> unreleased_link_pattern line \<Longrightarrow>
   release_loop today cv nv acc ls = Inr (acc @ ls)"
  by (induction ls arbitrary: acc) (simp_all add: promote_line_other)

text \<open>
  Claim C9, as amended. When no line that \<^verbatim>\<open>release_version\<close> reads matches the
  \<^verbatim>\<open>## [Unreleased]\<close> heading pattern or the \<^verbatim>\<open>[Unreleased]: <url>\<close> link pattern, it does
  not raise, whatever the current version (absent or not) and the new version are, and it
  emits every line as it read it. The file it writes is the text it read with every newline
  written as the line separator of the platform: the line endings of the original are
  normalised. When the original holds no carriage return and the separator is \<^verbatim>\<open>\n\<close>, the
  content written is the original; when every line of the original ends in \<^verbatim>\<open>\r\n\<close>, the
  content written is the same lines, each ended by the separator.
\<close>

theorem release_version_no_unreleased:
  assumes "\<forall>line \<in> set (readlines changelog).
             \<not> unreleased_heading line \<and> \<not> unreleased_link_pattern line"
  shows "release_loop today current_version new_version [] (readlines changelog)
           = Inr (readlines changelog)
       \<and> release_version today linesep changelog current_version new_version
           = Inr (concat (map (\<lambda>c. if c = CHR ''\<newline>'' then linesep else [c])
                    (concat (readlines changelog))))
       \<and> (CHR 0x0D \<notin> set changelog \<longrightarrow>
            release_version today ''\<newline>'' changelog current_version new_version = Inr changelog)
       \<and> (\<forall>ls. changelog = concat (map (\<lambda>l. l @ [CHR 0x0D, CHR ''\<newline>'']) ls)
                \<and> (\<forall>l \<in> set ls. CHR 0x0D \<notin> set l \<and> CHR ''\<newline>'' \<notin> set l)
              \<longrightarrow> release_version today linesep changelog current_version new_version
                    = Inr (concat (map (\<lambda>l. l @ linesep) ls)))"
proof -
  have loop: "release_loop today current_version new_version [] (readlines changelog)
           = Inr (readlines changelog)"
    using release_loop_unchanged [OF assms, of today current_version new_version "[]"] by simp
  then have written: "release_version today sep changelog current_version new_version
           = Inr (write_text sep (concat (readlines changelog)))" for sep
    by (simp add: release_version_def writelines_concat)
  have plain: "release_version today ''\<newline>'' changelog current_version new_version = Inr changelog"
    if "CHR 0x0D \<notin> set changelog"
    using that written [of "''\<newline>''"]
    by (simp add: write_text_newline readlines_def concat_split_lines universal_newlines_plain)
  have crlf: "release_version today linesep changelog current_version new_version
                    = Inr (concat (map (\<lambda>l. l @ linesep) ls))"
    if "changelog = concat (map (\<lambda>l. l @ [CHR 0x0D, CHR ''\<newline>'']) ls)"
      and "\<forall>l \<in> set ls. CHR 0x0D \<notin> set l \<and> CHR ''\<newline>'' \<notin> set l" for ls
  proof -
    have "concat (readlines changelog) = concat (map (\<lambda>l. l @ ''\<newline>'') ls)"
      using that universal_newlines_crlf_lines [of ls]
      by (simp add: readlines_def concat_split_lines)
    then show ?thesis
      using that(2) written [of linesep] write_text_lines [of ls linesep] by simp
  qed
  show ?thesis using loop written [of linesep] plain crlf by (simp add: write_text_explicit)
qed

theorem release_version_no_unreleased_witness:
  "release_version \<lparr>year = 2024, month = 2, day = 29\<rparr> ''\<newline>''
     (''# Changelog'' @ [CHR 0x0D, CHR ''\<newline>''] @ ''## [1.0.0] - 2020-12-31'' @ [CHR 0x0D, CHR ''\<newline>''])
     None ''1.1.0''
   = Inr ''# Changelog\<newline>## [1.0.0] - 2020-12-31\<newline>''
   \<and> release_version \<lparr>year = 2024, month = 2, day = 29\<rparr> ''\<newline>''
     ''# Changelog\<newline>## [1.0.0] - 2020-12-31\<newline>[1.0.0]: https://x/releases/tag/v1.0.0''
     None ''1.1.0''
   = Inr ''# Changelog\<newline>## [1.0.0] - 2020-12-31\<newline>[1.0.0]: https://x/releases/tag/v1.0.0''"
proof -
  have a: "\<forall>line \<in> set (readlines
          (''# Changelog'' @ [CHR 0x0D, CHR ''\<newline>''] @ ''## [1.0.0] - 2020-12-31'' @ [CHR 0x0D, CHR ''\<newline>''])).
          \<not> unreleased_heading line \<and> \<not> unreleased_link_pattern line"
    by (simp add: readlines_def unreleased_heading_def unreleased_link_pattern_def)
  have b: "\<forall>line \<in> set (readlines
          ''# Changelog\<newline>## [1.0.0] - 2020-12-31\<newline>[1.0.0]: https://x/releases/tag/v1.0.0'').
          \<not> unreleased_heading line \<and> \<not> unreleased_link_pattern line"
    by (simp add: readlines_def unreleased_heading_def unreleased_link_pattern_def)
  have first: "release_version \<lparr>year = 2024, month = 2, day = 29\<rparr> ''\<newline>''
     (''# Changelog'' @ [CHR 0x0D, CHR ''\<newline>''] @ ''## [1.0.0] - 2020-12-31'' @ [CHR 0x0D, CHR ''\<newline>''])
     None ''1.1.0''
   = Inr ''# Changelog\<newline>## [1.0.0] - 2020-12-31\<newline>''"
    using release_version_no_unreleased [OF a,
      where today = "\<lparr>year = 2024, month = 2, day = 29\<rparr>" and current_version = None
        and new_version = "''1.1.0''" and linesep = "''\<newline>''",
      THEN conjunct2, THEN conjunct1]
    by (simp add: readlines_def)
  have second: "release_version \<lparr>year = 2024, month = 2, day = 29\<rparr> ''\<newline>''
     ''# Changelog\<newline>## [1.0.0] - 2020-12-31\<newline>[1.0.0]: https://x/releases/tag/v1.0.0''
     None ''1.1.0''
   = Inr ''# Changelog\<newline>## [1.0.0] - 2020-12-31\<newline>[1.0.0]: https://x/releases/tag/v1.0.0''"
    using release_version_no_unreleased [OF b, THEN conjunct2, THEN conjunct2, THEN conjunct1]
    by simp
  from first second show ?thesis by (rule conjI)
qed

text \<open>
  The claim as it stands says that the content written is identical to the original. A
  file with the line ending \<^verbatim>\<open>\r\n\<close> and no Unreleased line is written back, on a platform
  whose separator is \<^verbatim>\<open>\n\<close>, without its carriage return.
\<close>

theorem release_version_normalises_line_endings:
  "readlines (''# Changelog'' @ [CHR 0x0D, CHR ''\<newline>'']) = [''# Changelog\<newline>'']
   \<and> \<not> unreleased_heading ''# Changelog\<newline>''
   \<and> \<not> unreleased_link_pattern ''# Changelog\<newline>''
   \<and> release_version \<lparr>year = 2024, month = 2, day = 29\<rparr> ''\<newline>''
         (''# Changelog'' @ [CHR 0x0D, CHR ''\<newline>'']) None ''1.1.0''
       = Inr ''# Changelog\<newline>''
   \<and> ''# Changelog\<newline>'' \<noteq> ''# Changelog'' @ [CHR 0x0D, CHR ''\<newline>'']"
  by (simp add: readlines_def unreleased_heading_def unreleased_link_pattern_def
      release_version_def promote_line_def writelines_def write_text_def)

subsection \<open>An absent current version\<close>

lemma promote_line_raises_TypeError:
  "promote_line today cv nv line = Inl e \<Longrightarrow> e = TypeError"
  by (cases cv)
     (auto simp: promote_line_def and_then_def split: if_splits option.splits sum.splits)

lemma promote_line_None_compare:
  "unreleased_link_pattern line \<Longrightarrow> unreleased_compare_pattern line \<noteq> None \<Longrightarrow>
   promote_line today None nv line = Inl TypeError"
  by (auto simp: promote_line_def and_then_def unreleased_heading_def unreleased_link_pattern_def
      dest: prefix_same_cases split: option.splits)

lemma release_loop_None_compare:
  "line \<in> set ls \<Longrightarrow> unreleased_link_pattern line \<Longrightarrow>
   unreleased_compare_pattern line \<noteq> None \<Longrightarrow>
   release_loop today None nv acc ls = Inl TypeError"
proof (induction ls arbitrary: acc)
  case Nil
  then show ?case by simp
next
  case (Cons l ls)
  show ?case
  proof (cases "promote_line today None nv l")
    case (Inl e)
    then show ?thesis using promote_line_raises_TypeError [OF Inl] by simp
  next
    case (Inr out)
    then have "l \<noteq> line"
      using Cons.prems promote_line_None_compare by fastforce
    then show ?thesis using Cons Inr by simp
  qed
qed

text \<open>
  Claim C10. When some line of the file is an \<^verbatim>\<open>[Unreleased]:\<close> link line that matches the
  compare pattern, \<^verbatim>\<open>release_version\<close> called with \<^verbatim>\<open>current_version = None\<close> raises
  (\<^verbatim>\<open>TypeError\<close>, from \<^verbatim>\<open>line.replace(current_version, new_version)\<close>) and writes nothing.
\<close>

theorem release_version_absent_current_version:
  assumes "line \<in> set (readlines changelog)"
    and "unreleased_link_pattern line"
    and "unreleased_compare_pattern line \<noteq> None"
  shows "release_version today linesep changelog None new_version = Inl TypeError"
  using release_loop_None_compare [OF assms, of today new_version "[]"]
  by (simp add: release_version_def)

theorem release_version_absent_current_version_witness:
  "release_version \<lparr>year = 2024, month = 2, day = 29\<rparr> ''\<newline>''
     ''## [Unreleased]\<newline>[Unreleased]: https://x/compare/v1.0.0...HEAD\<newline>'' None ''1.1.0''
   = Inl TypeError"
  by (rule release_version_absent_current_version
        [of "''[Unreleased]: https://x/compare/v1.0.0...HEAD\<newline>''"])
     (simp_all add: readlines_def unreleased_link_pattern_def unreleased_compare_pattern_def)

subsection \<open>The promotion scenario\<close>

lemma promote_line_Some_total:
  "\<exists>out. promote_line today (Some cv) nv line = Inr out"
  by (simp add: promote_line_def and_then_def split: option.splits)

lemma release_loop_Some_extends:
  "\<exists>post. release_loop today (Some cv) nv acc ls = Inr (acc @ post)"
proof (induction ls arbitrary: acc)
  case Nil
  show ?case by simp
next
  case (Cons l ls)
  obtain out where out: "promote_line today (Some cv) nv l = Inr out"
    using promote_line_Some_total by blast
  obtain post where "release_loop today (Some cv) nv (acc @ out) ls = Inr ((acc @ out) @ post)"
    using Cons.IH by blast
  then show ?case using out by simp
qed

lemma release_loop_Some_emits:
  "line \<in> set ls \<Longrightarrow> promote_line today (Some cv) nv line = Inr out \<Longrightarrow>
   \<exists>pre post. release_loop today (Some cv) nv acc ls = Inr (pre @ out @ post)"
proof (induction ls arbitrary: acc)
  case Nil
  then show ?case by simp
next
  case (Cons l ls)
  show ?case
  proof (cases "l = line")
    case True
    obtain post where
      "release_loop today (Some cv) nv (acc @ out) ls = Inr ((acc @ out) @ post)"
      using release_loop_Some_extends by blast
    then have "release_loop today (Some cv) nv acc (l # ls) = Inr (acc @ out @ post)"
      using True Cons.prems(2) by simp
    then show ?thesis by blast
  next
    case False
    obtain o' where o': "promote_line today (Some cv) nv l = Inr o'"
      using promote_line_Some_total by blast
    have "line \<in> set ls" using False Cons.prems(1) by simp
    from Cons.IH [OF this Cons.prems(2), of "acc @ o'"] show ?thesis
      using o' by simp
  qed
qed

lemma promote_heading_example:
  "promote_line today cv ''1.1.0'' ''## [Unreleased]\<newline>'' =
     Inr [''## [Unreleased]\<newline>'', ''\<newline>'', ''## [1.1.0] - '' @ isoformat today @ ''\<newline>'']"
  by (simp add: promote_line_def unreleased_heading_def)

lemma compare_example:
  "unreleased_compare_pattern ''[Unreleased]: https://x/compare/v1.0.0...HEAD\<newline>'' =
     Some (''v1.0.0'', ''HEAD'')"
  by (simp add: unreleased_compare_pattern_def is_word_def)

lemma promote_link_example:
  "promote_line today (Some ''1.0.0'') ''1.1.0''
     ''[Unreleased]: https://x/compare/v1.0.0...HEAD\<newline>'' =
     Inr [''[Unreleased]: https://x/compare/v1.1.0...HEAD\<newline>'',
          ''[1.1.0]: https://x/compare/v1.0.0...v1.1.0\<newline>'']"
  by (simp add: promote_line_def unreleased_heading_def unreleased_link_pattern_def
      compare_example and_then_def str_replace_def)

lemma isoformat_example: "isoformat \<lparr>year = 2024, month = 2, day = 29\<rparr> = ''2024-02-29''"
  by (simp add: isoformat_def digit_def)

lemma isoformat_digits:
  "isoformat today =
     map (\<lambda>n. ''0123456789'' ! (n mod 10))
       [year today div 1000, year today div 100, year today div 10, year today]
     @ ''-'' @ map (\<lambda>n. ''0123456789'' ! (n mod 10)) [month today div 10, month today]
     @ ''-'' @ map (\<lambda>n. ''0123456789'' ! (n mod 10)) [day today div 10, day today]"
  by (simp add: isoformat_def digit_def)

text \<open>
  Claim C4. For a file in which \<^verbatim>\<open>release_version\<close> reads the heading line
  \<^verbatim>\<open>## [Unreleased]\<close> and the link line \<^verbatim>\<open>[Unreleased]: https://x/compare/v1.0.0...HEAD\<close>
  (each ended by its newline, as in the scenario of the specification), the call with
  current version \<^verbatim>\<open>1.0.0\<close> and new version \<^verbatim>\<open>1.1.0\<close> returns. The list of lines it builds
  holds the Unreleased heading, a blank line and the heading \<^verbatim>\<open>## [1.1.0] - YYYY-MM-DD\<close>,
  one after the other, where the date is the day's year in four decimal digits, its month
  in two and its day in two; and it holds the line
  \<^verbatim>\<open>[Unreleased]: https://x/compare/v1.1.0...HEAD\<close> followed at once by the line
  \<^verbatim>\<open>[1.1.0]: https://x/compare/v1.0.0...v1.1.0\<close>. The file written is these lines one after
  the other, every newline written as the line separator of the platform.
\<close>

theorem release_version_promotion_scenario:
  assumes "''## [Unreleased]\<newline>'' \<in> set (readlines changelog)"
    and "''[Unreleased]: https://x/compare/v1.0.0...HEAD\<newline>'' \<in> set (readlines changelog)"
  shows "\<exists>lines.
      release_loop today (Some ''1.0.0'') ''1.1.0'' [] (readlines changelog) = Inr lines
    \<and> release_version today linesep changelog (Some ''1.0.0'') ''1.1.0''
        = Inr (concat (map (\<lambda>c. if c = CHR ''\<newline>'' then linesep else [c]) (concat lines)))
    \<and> (\<exists>pre post. lines = pre @
          [''## [Unreleased]\<newline>'', ''\<newline>'',
           ''## [1.1.0] - ''
           @ map (\<lambda>n. ''0123456789'' ! (n mod 10))
               [year today div 1000, year today div 100, year today div 10, year today]
           @ ''-'' @ map (\<lambda>n. ''0123456789'' ! (n mod 10)) [month today div 10, month today]
           @ ''-'' @ map (\<lambda>n. ''0123456789'' ! (n mod 10)) [day today div 10, day today]
           @ ''\<newline>''] @ post)
    \<and> (\<exists>pre post. lines = pre @
          [''[Unreleased]: https://x/compare/v1.1.0...HEAD\<newline>'',
           ''[1.1.0]: https://x/compare/v1.0.0...v1.1.0\<newline>''] @ post)"
proof -
  obtain lines where lines:
    "release_loop today (Some ''1.0.0'') ''1.1.0'' [] (readlines changelog) = Inr lines"
    using release_loop_Some_extends [of today "''1.0.0''" "''1.1.0''" "[]"] by auto
  have written: "release_version today linesep changelog (Some ''1.0.0'') ''1.1.0''
        = Inr (concat (map (\<lambda>c. if c = CHR ''\<newline>'' then linesep else [c]) (concat lines)))"
    using lines by (simp add: release_version_def writelines_concat write_text_explicit)
  have heading: "\<exists>pre post. lines = pre @
          [''## [Unreleased]\<newline>'', ''\<newline>'',
           ''## [1.1.0] - ''
           @ map (\<lambda>n. ''0123456789'' ! (n mod 10))
               [year today div 1000, year today div 100, year today div 10, year today]
           @ ''-'' @ map (\<lambda>n. ''0123456789'' ! (n mod 10)) [month today div 10, month today]
           @ ''-'' @ map (\<lambda>n. ''0123456789'' ! (n mod 10)) [day today div 10, day today]
           @ ''\<newline>''] @ post"
    using release_loop_Some_emits [OF assms(1) promote_heading_example, of today "''1.0.0''" "[]"]
      lines by (simp add: isoformat_digits)
  have links: "\<exists>pre post. lines = pre @
          [''[Unreleased]: https://x/compare/v1.1.0...HEAD\<newline>'',
           ''[1.1.0]: https://x/compare/v1.0.0...v1.1.0\<newline>''] @ post"
    using release_loop_Some_emits [OF assms(2) promote_link_example, of today "[]"]
      lines by simp
  from lines written heading links show ?thesis by blast
qed

theorem release_version_promotion_scenario_witness:
  "release_version \<lparr>year = 2024, month = 2, day = 29\<rparr> ''\<newline>''
     (''# Changelog'' @ [CHR 0x0D, CHR ''\<newline>''] @ ''## [Unreleased]'' @ [CHR 0x0D, CHR ''\<newline>'']
      @ ''### Added\<newline>- x\<newline>[Unreleased]: https://x/compare/v1.0.0...HEAD\<newline>'')
     (Some ''1.0.0'') ''1.1.0''
   = Inr ''# Changelog\<newline>## [Unreleased]\<newline>\<newline>## [1.1.0] - 2024-02-29\<newline>### Added\<newline>- x\<newline>[Unreleased]: https://x/compare/v1.1.0...HEAD\<newline>[1.1.0]: https://x/compare/v1.0.0...v1.1.0\<newline>''"
  (is "release_version ?today ?sep ?file ?cv ?nv = Inr ?out")
proof -
  have h1: "''## [Unreleased]\<newline>'' \<in> set (readlines ?file)"
    by (simp add: readlines_def)
  have h2: "''[Unreleased]: https://x/compare/v1.0.0...HEAD\<newline>'' \<in> set (readlines ?file)"
    by (simp add: readlines_def)
  obtain lines where l: "release_loop ?today ?cv ?nv [] (readlines ?file) = Inr lines"
    and w: "release_version ?today ?sep ?file ?cv ?nv
        = Inr (concat (map (\<lambda>c. if c = CHR ''\<newline>'' then ?sep else [c]) (concat lines)))"
    using release_version_promotion_scenario [OF h1 h2, of ?today ?sep] by blast
  have "release_loop ?today ?cv ?nv [] (readlines ?file) =
      Inr [''# Changelog\<newline>'', ''## [Unreleased]\<newline>'', ''\<newline>'',
           ''## [1.1.0] - 2024-02-29\<newline>'', ''### Added\<newline>'', ''- x\<newline>'',
           ''[Unreleased]: https://x/compare/v1.1.0...HEAD\<newline>'',
           ''[1.1.0]: https://x/compare/v1.0.0...v1.1.0\<newline>'']"
    by (simp add: readlines_def promote_line_def unreleased_heading_def
        unreleased_link_pattern_def compare_example and_then_def str_replace_def
        isoformat_def digit_def)
  with l have "lines = [''# Changelog\<newline>'', ''## [Unreleased]\<newline>'', ''\<newline>'',
           ''## [1.1.0] - 2024-02-29\<newline>'', ''### Added\<newline>'', ''- x\<newline>'',
           ''[Unreleased]: https://x/compare/v1.1.0...HEAD\<newline>'',
           ''[1.1.0]: https://x/compare/v1.0.0...v1.1.0\<newline>'']"
    by simp
  with w show ?thesis by simp
qed

subsection \<open>A link line without the compare shape\<close>

lemma replace_scan_absent: "\<not> sublist old s \<Longrightarrow> replace_scan old new s = s"
proof (induction old new s rule: replace_scan.induct)
  case (1 old new)
  show ?case by simp
next
  case (2 old new c cs)
  have "\<not> prefix old (c # cs)" using "2.prems" prefix_imp_sublist by blast
  moreover have "\<not> sublist old cs" using "2.prems" by (meson sublist_Cons_right)
  ultimately show ?case using "2.IH"(2) by simp
qed

lemma str_replace_absent: "\<not> sublist old s \<Longrightarrow> str_replace old new s = s"
  by (cases "old = []") (simp_all add: str_replace_def replace_scan_absent)

lemma str_replace_label:
  "str_replace ''Unreleased'' nv (''[Unreleased]: '' @ url) =
   ''['' @ nv @ '']: '' @ str_replace ''Unreleased'' nv url"
  by (simp add: str_replace_def)

text \<open>
  Claim C5, as amended. A link line is \<^verbatim>\<open>[Unreleased]: \<close> followed by its URL part. When the
  line does not match the compare pattern, the loop of \<^verbatim>\<open>release_version\<close> appends the line
  as it is and then a copy in which every occurrence of \<^verbatim>\<open>Unreleased\<close> is replaced by the
  new version: the one of the label, and those of the URL part too. A URL part that does not
  contain \<^verbatim>\<open>Unreleased\<close> is copied as it is.
\<close>

theorem link_without_compare_shape:
  assumes "unreleased_compare_pattern (''[Unreleased]: '' @ url) = None"
  shows "release_loop today current_version new_version lines ((''[Unreleased]: '' @ url) # rest) =
         release_loop today current_version new_version
           (lines @ [''[Unreleased]: '' @ url,
                     ''['' @ new_version @ '']: '' @ str_replace ''Unreleased'' new_version url]) rest
         \<and> (\<not> sublist ''Unreleased'' url \<longrightarrow> str_replace ''Unreleased'' new_version url = url)"
proof -
  have "promote_line today current_version new_version (''[Unreleased]: '' @ url) =
        Inr [''[Unreleased]: '' @ url,
             str_replace ''Unreleased'' new_version (''[Unreleased]: '' @ url)]"
    using assms by (simp add: promote_line_def unreleased_heading_def unreleased_link_pattern_def)
  then show ?thesis
    by (simp add: str_replace_label str_replace_absent del: append.simps)
qed

theorem link_without_compare_shape_witness:
  "release_loop \<lparr>year = 2024, month = 2, day = 29\<rparr> None ''1.1.0'' []
     [''[Unreleased]: '' @ ''https://x/tree/unreleased\<newline>''] =
   Inr [''[Unreleased]: https://x/tree/unreleased\<newline>'',
        ''[1.1.0]: https://x/tree/unreleased\<newline>'']"
proof -
  have shape: "unreleased_compare_pattern (''[Unreleased]: '' @ ''https://x/tree/unreleased\<newline>'') = None"
    by (simp add: unreleased_compare_pattern_def)
  have absent: "\<not> sublist ''Unreleased'' ''https://x/tree/unreleased\<newline>''"
    by (simp add: sublist_Cons_right)
  show ?thesis
    using link_without_compare_shape
      [OF shape, of "\<lparr>year = 2024, month = 2, day = 29\<rparr>" None "''1.1.0''" "[]" "[]"] absent
    by simp
qed

text \<open>
  The claim as it stands says that the URL is not rewritten. It is, when it contains
  \<^verbatim>\<open>Unreleased\<close>: the line below matches the link pattern and not the compare pattern, and
  the copy points to \<^verbatim>\<open>https://x/tree/1.1.0\<close>.
\<close>

theorem link_without_compare_shape_rewrites_url:
  "unreleased_link_pattern ''[Unreleased]: https://x/tree/Unreleased\<newline>''
   \<and> unreleased_compare_pattern ''[Unreleased]: https://x/tree/Unreleased\<newline>'' = None
   \<and> release_version \<lparr>year = 2024, month = 2, day = 29\<rparr> ''\<newline>''
         ''[Unreleased]: https://x/tree/Unreleased\<newline>'' None ''1.1.0''
       = Inr ''[Unreleased]: https://x/tree/Unreleased\<newline>[1.1.0]: https://x/tree/1.1.0\<newline>''"
  by (simp add: unreleased_link_pattern_def unreleased_compare_pattern_def release_version_def
      promote_line_def unreleased_heading_def str_replace_def writelines_def write_text_def
      readlines_def)

section \<open>Properties of the version extractor\<close>

lemma lstrip_run:
  "\<not> prefix [c] s \<Longrightarrow> lstrip [c] (replicate m c @ s) = s"
  by (cases s) (auto simp: lstrip_def dropWhile_append)

lemma rstrip_run:
  assumes "\<not> suffix [c] s"
  shows "rstrip [c] (s @ replicate n c) = s"
proof -
  have "dropWhile (\<lambda>x. x \<in> set [c]) (rev s) = rev s"
  proof (cases s rule: rev_cases)
    case Nil
    then show ?thesis by simp
  next
    case (snoc ys y)
    then have "y \<noteq> c" using assms by (auto simp: suffix_def)
    then show ?thesis using snoc by simp
  qed
  then show ?thesis by (simp add: rstrip_def dropWhile_append)
qed

lemma unlink_run:
  assumes "\<not> prefix ''['' t" and "\<not> suffix '']'' t"
  shows "unlink (replicate m CHR ''['' @ t @ replicate n CHR '']'') = t"
proof -
  have "\<not> prefix ''['' (t @ replicate n CHR '']'')"
    using assms(1) by (cases t; cases n) auto
  then have "lstrip ''['' (replicate m CHR ''['' @ t @ replicate n CHR '']'') =
             t @ replicate n CHR '']''"
    by (rule lstrip_run)
  then show ?thesis using rstrip_run [OF assms(2)] by (simp add: unlink_def)
qed

text \<open>
  Claim C8, as amended. \<^verbatim>\<open>unlink\<close> removes every leading \<^verbatim>\<open>[\<close> and every trailing
  \<^verbatim>\<open>]\<close> of the token, however many there are: of \<open>m\<close> opening brackets, a text \<open>t\<close> that
  neither starts with \<^verbatim>\<open>[\<close> nor ends with \<^verbatim>\<open>]\<close>, and \<open>n\<close> closing brackets, it keeps \<open>t\<close>.
  Every token has exactly one such form.
\<close>

theorem unlink_strips_every_bracket:
  assumes "\<not> prefix ''['' t" and "\<not> suffix '']'' t"
  shows "unlink (replicate m CHR ''['' @ t @ replicate n CHR '']'') = t"
  using assms by (rule unlink_run)

theorem unlink_strips_every_bracket_witness:
  "unlink (replicate 2 CHR ''['' @ ''1.0'' @ replicate 1 CHR '']'') = ''1.0''"
  by (rule unlink_strips_every_bracket) (simp_all add: suffix_def)

text \<open>
  The claim as it stands says that one bracket is removed on each side; of the token
  \<^verbatim>\<open>[[1.0]]\<close> that would leave \<^verbatim>\<open>[1.0]\<close>.
\<close>

theorem unlink_strips_two_brackets:
  "unlink ''[[1.0]]'' = ''1.0'' \<and> unlink ''[[1.0]]'' \<noteq> ''[1.0]''"
  by (simp add: unlink_def lstrip_def rstrip_def)

section \<open>Properties of the read paths\<close>

lemmas to_dict_eval =
  to_dict_def to_dict_step_def add_release_def add_category_def release_fields_def item_def
  and_then_def version_of_token_def unlink_def lstrip_def rstrip_def extract_date_def
  initial_def returned_def field_of_def dict_truthy_def truthy_def

text \<open>
  Claim C7. The claim is that a heading with a link as its version token and a heading with
  the plain form \<^verbatim>\<open>[1.2.3]\<close> of the same text give the same version. The link form,
  \<^verbatim>\<open>## [1.2.3] - 2020-12-31\<close> with a link definition for \<^verbatim>\<open>[1.2.3]\<close>, is parsed into a
  link and a text, and it is registered under \<^verbatim>\<open>1.2.3\<close>. The plain form, the same heading
  without the link definition, is parsed into one text, \<^verbatim>\<open>[1.2.3] - 2020-12-31\<close>:
  \<^verbatim>\<open>add_release\<close> takes the heading for a dateless one and skips it, or with
  \<^verbatim>\<open>show_unreleased\<close> raises \<^verbatim>\<open>IndexError\<close> on \<^verbatim>\<open>section.children[1]\<close>, and
  \<^verbatim>\<open>unlink\<close> on that text leaves \<^verbatim>\<open>1.2.3] - 2020-12-31\<close>. The docstring of
  \<^verbatim>\<open>add_release\<close> names \<^verbatim>\<open>[0.0.1] - 2020-12-31\<close> as a release pattern it should match.
\<close>

theorem plain_version_heading_not_registered:
  "to_dict [Heading 2 [Link [RawText ''1.2.3''] ''https://x/releases/tag/v1.2.3'',
                       RawText '' - 2020-12-31'']] False
     = Inr [(''1.2.3'', [(''version'', Text ''1.2.3''), (''release_date'', Text ''2020-12-31'')])]
   \<and> to_dict [Heading 2 [Link [RawText ''1.2.3''] ''https://x/releases/tag/v1.2.3'',
                       RawText '' - 2020-12-31'']] True
     = Inr [(''1.2.3'', [(''version'', Text ''1.2.3''), (''release_date'', Text ''2020-12-31'')])]
   \<and> to_dict [Heading 2 [RawText ''[1.2.3] - 2020-12-31'']] False = Inr []
   \<and> to_dict [Heading 2 [RawText ''[1.2.3] - 2020-12-31'']] True = Inl IndexError
   \<and> version_of_token (RawText ''[1.2.3] - 2020-12-31'') = Inr (Some ''1.2.3] - 2020-12-31'')"
  by (simp add: to_dict_eval)

text \<open>
  Claim C1. A release heading, a category heading and a list of two items: the claim is
  that both items end up in the category. \<^verbatim>\<open>to_dict\<close> guards \<^verbatim>\<open>add_change_list\<close> with the
  truth value of \<^verbatim>\<open>category\<close>, and the list that \<^verbatim>\<open>add_category\<close> has just created is empty,
  hence false: the items are dropped and the category stays empty.
\<close>

theorem to_dict_drops_change_entries:
  "to_dict [Heading 2 [Link [RawText ''1.0.0''] ''https://x/releases/tag/v1.0.0'',
                       RawText '' - 2020-12-31''],
            Heading 3 [RawText ''Added''],
            List_block [ListItem ''First change'', ListItem ''Second change'']] show_unreleased
   = Inr [(''1.0.0'', [(''version'', Text ''1.0.0''), (''release_date'', Text ''2020-12-31''),
                       (''Added'', Entries [])])]"
  by (simp add: to_dict_eval)

text \<open>
  Claim C2. The dateless heading \<^verbatim>\<open>## [Unreleased]\<close> has one inline child, a text or (with a
  link definition at the foot of the file) a link. Without \<^verbatim>\<open>show_unreleased\<close> the release
  is left out, as the claim says. With \<^verbatim>\<open>show_unreleased\<close> the claim is that the release is
  there with an empty date; \<^verbatim>\<open>add_release\<close> reads \<^verbatim>\<open>section.children[1]\<close> and raises
  \<^verbatim>\<open>IndexError\<close>.
\<close>

theorem to_dict_dateless_unreleased:
  "to_dict [Heading 2 [RawText ''[Unreleased]'']] False = Inr []
   \<and> to_dict [Heading 2 [RawText ''[Unreleased]'']] True = Inl IndexError
   \<and> to_dict [Heading 2 [Link [RawText ''Unreleased''] ''https://x/compare/v1.0.0...HEAD'']] True
       = Inl IndexError"
  by (simp add: to_dict_eval)

text \<open>
  Claim C3. The claim is that \<^verbatim>\<open>to_raw_dict\<close> returns the releases with their raw text.
  Its classifiers are given a \<^verbatim>\<open>str\<close>, so no line is a release or a category, and the
  call of the undefined \<^verbatim>\<open>is_information\<close> is reached on the first line: on every file that
  is not empty \<^verbatim>\<open>to_raw_dict\<close> raises \<^verbatim>\<open>NameError\<close>, and on the empty file it returns the
  empty dict.
\<close>

theorem to_raw_dict_raises:
  "to_raw_dict changelog = (if changelog = [] then Inr [] else Inl NameError)"
proof (cases "readlines changelog")
  case Nil
  then show ?thesis
    using readlines_empty [of changelog] by (simp add: to_raw_dict_def returned_def initial_def)
next
  case (Cons l ls)
  then show ?thesis
    using readlines_empty [of changelog] by (auto simp: to_raw_dict_def)
qed

section \<open>The keys of the changelog mapping\<close>

lemma first_seen_snoc:
  "first_seen (xs @ [x]) = (if x \<in> set xs then first_seen xs else first_seen xs @ [x])"
  by (simp add: first_seen_def)

lemma set_first_seen: "set (first_seen xs) = set xs"
  by (simp add: first_seen_def)

lemma distinct_first_seen: "distinct (first_seen xs)"
  by (simp add: first_seen_def)

lemma map_of_snoc_known:
  "map_of xs k = Some v \<Longrightarrow> map_of (xs @ ys) k = Some v"
  by (simp add: map_add_Some_iff)

lemma key_known:
  "map fst (changes st) = first_seen (map fst hs) \<Longrightarrow> (v, a) \<in> set (changes st) \<Longrightarrow>
   \<exists>d. map_of hs v = Some d"
proof -
  assume k: "map fst (changes st) = first_seen (map fst hs)" and m: "(v, a) \<in> set (changes st)"
  from m have "v \<in> set (map fst (changes st))" by force
  then have "v \<in> set (map fst hs)" using k set_first_seen by metis
  then show ?thesis by (metis map_of_eq_None_iff not_Some_eq set_map)
qed

lemma registry_keys:
  assumes "registry_ok hs st"
  shows "fst ` set (changes st) = fst ` set hs"
proof -
  have "set (map fst (changes st)) = set (map fst hs)"
    using assms set_first_seen [of "map fst hs"] by (simp only: registry_ok_def)
  then show ?thesis by simp
qed

lemma add_release_registry:
  assumes ok: "registry_ok hs st"
    and step: "add_release st cs su = Inr (st', r)"
  shows "registry_ok (hs @ registered su (Heading 2 cs)) (st'\<lparr>current_release := r\<rparr>)"
proof (cases "release_fields su cs")
  case (Inl e)
  then show ?thesis using step by (simp add: add_release_def and_then_def)
next
  case (Inr fields)
  show ?thesis
  proof (cases fields)
    case None
    then have st': "st' = st\<lparr>dict_heap := dict_heap st @ [[]]\<rparr>" and r: "r = length (dict_heap st)"
      using step Inr by (auto simp: add_release_def and_then_def)
    have "registered su (Heading 2 cs) = []" using Inr None by (simp add: registered_def)
    then show ?thesis
      using ok unfolding registry_ok_def st' r
      by (auto simp: list_all_iff nth_append)
  next
    case (Some vd)
    obtain v d where vd: "vd = (v, d)" by (cases vd)
    have reg: "registered su (Heading 2 cs) = [(v, d)]"
      using Inr Some vd by (simp add: registered_def)
    show ?thesis
    proof (cases "map_of (changes st) v")
      case None
      then have st': "st' = st\<lparr>dict_heap := dict_heap st @
                            [[(''version'', PStr v), (''release_date'', PStr d)]],
                         changes := changes st @ [(v, length (dict_heap st))]\<rparr>"
        and r: "r = length (dict_heap st)"
        using step Inr Some vd by (auto simp: add_release_def and_then_def)
      have "v \<notin> fst ` set (changes st)"
        using None by (simp add: map_of_eq_None_iff)
      then have new: "v \<notin> set (map fst hs)"
        using registry_keys [OF ok] by simp
      then have none: "map_of hs v = None" by (simp add: map_of_eq_None_iff)
      have keys: "map fst (changes st) @ [v] = first_seen (map fst (hs @ [(v, d)]))"
        using ok new by (simp add: registry_ok_def first_seen_snoc)
      have old: "\<And>v' a. (v', a) \<in> set (changes st) \<Longrightarrow>
                  map_of (hs @ [(v, d)]) v' = map_of hs v'"
        using key_known [of st hs] ok map_of_snoc_known by (fastforce simp: registry_ok_def)
      have fresh: "map_of (hs @ [(v, d)]) v = Some d"
        using none by (simp add: map_add_def)
      show ?thesis
        using ok keys fresh old unfolding registry_ok_def st' r reg
        by (auto simp: list_all_iff nth_append)
    next
      case (Some a)
      then have st': "st' = st" and r: "r = a"
        using step Inr \<open>fields = Some vd\<close> vd by (auto simp: add_release_def and_then_def)
      have mem: "(v, a) \<in> set (changes st)" using Some by (rule map_of_SomeD)
      then have "v \<in> fst ` set (changes st)" by force
      then have seen: "v \<in> set (map fst hs)"
        using registry_keys [OF ok] by simp
      have old: "\<And>v' a. (v', a) \<in> set (changes st) \<Longrightarrow>
                  map_of (hs @ [(v, d)]) v' = map_of hs v'"
        using key_known [of st hs] ok map_of_snoc_known by (fastforce simp: registry_ok_def)
      have "a < length (dict_heap st)"
        using ok mem by (auto simp: registry_ok_def list_all_iff)
      then show ?thesis
        using ok seen old unfolding registry_ok_def st' r reg
        by (auto simp: list_all_iff first_seen_snoc)
    qed
  qed
qed

lemma add_category_registry:
  assumes ok: "registry_ok hs st"
    and step: "add_category st (current_release st) cs = Inr (st', c)"
  shows "registry_ok hs (st'\<lparr>category := c\<rparr>)"
proof -
  show ?thesis
  proof (cases "\<exists>t n. item cs 0 = Inr t \<and> token_content t = Inr n
                    \<and> map_of (dict_heap st ! current_release st) n = None")
    case False
    then have "st' = st"
      using step by (auto simp: add_category_def and_then_def split: sum.splits option.splits)
    then show ?thesis using ok by (simp add: registry_ok_def)
  next
    case True
    then obtain t n where t: "item cs 0 = Inr t" and n: "token_content t = Inr n"
      and absent: "map_of (dict_heap st ! current_release st) n = None" by blast
    let ?d = "dict_heap st ! current_release st"
    have st': "st' = st\<lparr>list_heap := list_heap st @ [[]],
                 dict_heap := (dict_heap st)
                   [current_release st := ?d @ [(n, PList (length (list_heap st)))]]\<rparr>"
      using step t n absent by (auto simp: add_category_def and_then_def)
    have keep: "\<And>a k. a < length (dict_heap st) \<Longrightarrow> map_of (dict_heap st ! a) k \<noteq> None \<Longrightarrow>
        map_of ((dict_heap st)[current_release st := ?d @ [(n, PList (length (list_heap st)))]] ! a) k
        = map_of (dict_heap st ! a) k"
    proof -
      fix a k
      assume a: "a < length (dict_heap st)" and k: "map_of (dict_heap st ! a) k \<noteq> None"
      show "map_of ((dict_heap st)[current_release st := ?d @ [(n, PList (length (list_heap st)))]] ! a) k
            = map_of (dict_heap st ! a) k"
      proof (cases "a = current_release st")
        case True
        obtain y where "map_of ?d k = Some y" using k True by auto
        then show ?thesis using True a by (simp add: map_of_snoc_known)
      next
        case False
        then show ?thesis by simp
      qed
    qed
    have entry: "a < length (dict_heap st)
        \<and> map_of ((dict_heap st)[current_release st := ?d @ [(n, PList (length (list_heap st)))]] ! a)
            ''version'' = Some (PStr v)
        \<and> map_of ((dict_heap st)[current_release st := ?d @ [(n, PList (length (list_heap st)))]] ! a)
            ''release_date'' = map_option PStr (map_of hs v)"
      if mem: "(v, a) \<in> set (changes st)" for v a
    proof -
      have a: "a < length (dict_heap st)"
        and ver: "map_of (dict_heap st ! a) ''version'' = Some (PStr v)"
        and dat: "map_of (dict_heap st ! a) ''release_date'' = map_option PStr (map_of hs v)"
        using ok mem by (auto simp: registry_ok_def list_all_iff)
      obtain d where "map_of hs v = Some d"
        using key_known [of st hs v a] ok mem by (auto simp: registry_ok_def)
      then have "map_of (dict_heap st ! a) ''release_date'' \<noteq> None" using dat by simp
      then show ?thesis using a ver dat keep [of a] by simp
    qed
    show ?thesis
      using ok entry unfolding registry_ok_def st'
      by (auto simp: list_all_iff simp del: map_of_append)
  qed
qed

lemma add_change_list_frame:
  "add_change_list st c items = Inr st' \<Longrightarrow>
   dict_heap st' = dict_heap st \<and> changes st' = changes st
   \<and> current_release st' = current_release st"
  by (induction st c items rule: add_change_list.induct) auto

lemma to_dict_step_registry:
  assumes ok: "registry_ok hs st"
    and step: "to_dict_step su st s = Inr st'"
  shows "registry_ok (hs @ registered su s) st'"
proof (cases "is_release s")
  case True
  then obtain cs where s: "s = Heading 2 cs" by (cases s) auto
  obtain st1 r where r: "add_release st cs su = Inr (st1, r)" and st': "st' = st1\<lparr>current_release := r\<rparr>"
    using step s by (auto simp: to_dict_step_def and_then_def split: sum.splits)
  show ?thesis using add_release_registry [OF ok r] s st' by simp
next
  case False
  then have none: "registered su s = []" by (simp add: registered_def)
  show ?thesis
  proof (cases "is_category s")
    case True
    obtain st1 c where c: "add_category st (current_release st) (heading_children s) = Inr (st1, c)"
      and st': "st' = st1\<lparr>category := c\<rparr>"
      using step True False by (auto simp: to_dict_step_def and_then_def split: sum.splits)
    show ?thesis using add_category_registry [OF ok c] st' none by simp
  next
    case cat: False
    show ?thesis
    proof (cases "is_list s \<and> dict_truthy st (current_release st) \<and> truthy st (category st)")
      case True
      then have "add_change_list st (category st) (list_children s) = Inr st'"
        using step False cat by (simp add: to_dict_step_def)
      then show ?thesis
        using add_change_list_frame ok none by (simp add: registry_ok_def)
    next
      case False
      then have "st' = st" using step \<open>\<not> is_release s\<close> cat by (auto simp: to_dict_step_def)
      then show ?thesis using ok none by simp
    qed
  qed
qed

lemma to_dict_loop_registry:
  "registry_ok hs st \<Longrightarrow> to_dict_loop su st doc = Inr st' \<Longrightarrow>
   registry_ok (hs @ release_headings su doc) st'"
proof (induction doc arbitrary: hs st)
  case Nil
  then show ?case by (simp add: release_headings_def)
next
  case (Cons s doc)
  obtain st1 where st1: "to_dict_step su st s = Inr st1"
    and rest: "to_dict_loop su st1 doc = Inr st'"
    using Cons.prems(2) by (auto split: sum.splits)
  have "registry_ok (hs @ registered su s) st1"
    using to_dict_step_registry [OF Cons.prems(1) st1] .
  from Cons.IH [OF this rest] show ?case by (simp add: release_headings_def)
qed

lemma registry_initial: "registry_ok [] initial"
  by (simp add: registry_ok_def initial_def first_seen_def)

lemma map_of_returned:
  "map_of (map (\<lambda>(k, v). (k, field_of st v)) d) k = map_option (field_of st) (map_of d k)"
  by (induction d) auto

lemma field_of_PStr: "field_of st (PStr s) = Text s"
  by (simp add: field_of_def)

lemma add_release_existing:
  "release_fields su cs = Inr (Some (v, d)) \<Longrightarrow> map_of (changes st) v = Some a \<Longrightarrow>
   add_release st cs su = Inr (st, a)"
  by (simp add: add_release_def and_then_def)

text \<open>
  Claim C6. When \<^verbatim>\<open>to_dict\<close> returns, the keys of the mapping are distinct; they are the
  versions of the release headings of the document in the order in which each version is
  first seen (a heading that \<^verbatim>\<open>add_release\<close> skips, having one child while
  \<^verbatim>\<open>show_unreleased\<close> is false, registers no version); every release holds its key as
  \<^verbatim>\<open>version\<close> and, as \<^verbatim>\<open>release_date\<close>, the date of the first heading with that version;
  and \<^verbatim>\<open>add_release\<close> on a version that \<^verbatim>\<open>changes\<close> already holds returns the dict stored
  under it and leaves the store as it is.
\<close>

theorem to_dict_release_keys:
  assumes "to_dict document show_unreleased = Inr res"
  shows "distinct (map fst res)
       \<and> map fst res = first_seen (map fst (release_headings show_unreleased document))
       \<and> (\<forall>(v, release) \<in> set res.
            map_of release ''version'' = Some (Text v)
            \<and> map_of release ''release_date'' =
                map_option Text (map_of (release_headings show_unreleased document) v))
       \<and> (\<forall>st children v d existing.
            release_fields show_unreleased children = Inr (Some (v, d))
            \<and> map_of (changes st) v = Some existing
            \<longrightarrow> add_release st children show_unreleased = Inr (st, existing))"
proof -
  obtain st where loop: "to_dict_loop show_unreleased initial document = Inr st"
    and res: "res = returned st"
    using assms by (auto simp: to_dict_def split: sum.splits)
  have ok: "registry_ok (release_headings show_unreleased document) st"
    using to_dict_loop_registry [OF registry_initial loop] by simp
  have keys: "map fst res = map fst (changes st)"
    unfolding res returned_def by (induction "changes st") (auto simp: case_prod_unfold)
  have k1: "map fst res = first_seen (map fst (release_headings show_unreleased document))"
    using ok keys by (simp add: registry_ok_def)
  have k2: "distinct (map fst res)" using k1 distinct_first_seen by metis
  have k3: "\<forall>(v, release) \<in> set res.
            map_of release ''version'' = Some (Text v)
            \<and> map_of release ''release_date'' =
                map_option Text (map_of (release_headings show_unreleased document) v)"
    using ok unfolding res returned_def registry_ok_def
    by (auto simp: list_all_iff map_of_returned field_of_PStr option.map_comp comp_def)
  show ?thesis using k1 k2 k3 add_release_existing by blast
qed

theorem to_dict_release_keys_witness:
  "to_dict [Heading 2 [RawText ''[Unreleased]''],
            Heading 2 [RawText ''[1.0.0]'', RawText '' - 2020-12-31''],
            Heading 3 [RawText ''Added''],
            Heading 2 [Link [RawText ''0.9.0''] ''https://x'', RawText '' (2020-11-30)''],
            Heading 2 [RawText ''[1.0.0]'', RawText '' - 1999-01-01'']] False
     = Inr [(''1.0.0'', [(''version'', Text ''1.0.0''), (''release_date'', Text ''2020-12-31''),
                         (''Added'', Entries [])]),
            (''0.9.0'', [(''version'', Text ''0.9.0''), (''release_date'', Text ''2020-11-30'')])]
   \<and> map fst [(''1.0.0'', [(''version'', Text ''1.0.0''), (''release_date'', Text ''2020-12-31''),
                         (''Added'', Entries [])]),
            (''0.9.0'', [(''version'', Text ''0.9.0''), (''release_date'', Text ''2020-11-30'')])]
     = first_seen (map fst (release_headings False
           [Heading 2 [RawText ''[Unreleased]''],
            Heading 2 [RawText ''[1.0.0]'', RawText '' - 2020-12-31''],
            Heading 3 [RawText ''Added''],
            Heading 2 [Link [RawText ''0.9.0''] ''https://x'', RawText '' (2020-11-30)''],
            Heading 2 [RawText ''[1.0.0]'', RawText '' - 1999-01-01'']]))"
  (is "?run \<and> ?keys")
proof -
  have run: "to_dict [Heading 2 [RawText ''[Unreleased]''],
            Heading 2 [RawText ''[1.0.0]'', RawText '' - 2020-12-31''],
            Heading 3 [RawText ''Added''],
            Heading 2 [Link [RawText ''0.9.0''] ''https://x'', RawText '' (2020-11-30)''],
            Heading 2 [RawText ''[1.0.0]'', RawText '' - 1999-01-01'']] False
     = Inr [(''1.0.0'', [(''version'', Text ''1.0.0''), (''release_date'', Text ''2020-12-31''),
                         (''Added'', Entries [])]),
            (''0.9.0'', [(''version'', Text ''0.9.0''), (''release_date'', Text ''2020-11-30'')])]"
    by (simp add: to_dict_def to_dict_step_def add_release_def add_category_def release_fields_def item_def
  and_then_def version_of_token_def unlink_def lstrip_def rstrip_def extract_date_def
  initial_def returned_def field_of_def dict_truthy_def truthy_def)
  have keys: ?keys
    by (rule to_dict_release_keys [OF run, THEN conjunct2, THEN conjunct1])
  from run keys show ?thesis by (rule conjI)
qed

section \<open>The lists of the store stay empty\<close>

lemma ref_ok_same:
  "list_heap st' = list_heap st \<Longrightarrow> ref_ok st' = ref_ok st"
  by (rule ext) (simp add: ref_ok_def split: pyval.splits)

lemma ref_ok_updates:
  "ref_ok (st\<lparr>dict_heap := ds\<rparr>) = ref_ok st"
  "ref_ok (st\<lparr>changes := cs\<rparr>) = ref_ok st"
  "ref_ok (st\<lparr>current_release := r\<rparr>) = ref_ok st"
  "ref_ok (st\<lparr>category := c\<rparr>) = ref_ok st"
  by (rule ref_ok_same, simp)+

lemma add_release_cases:
  assumes step: "add_release st cs su = Inr (st', r)"
  obtains (skip) "release_fields su cs = Inr None"
      "st' = st\<lparr>dict_heap := dict_heap st @ [[]]\<rparr>" "r = length (dict_heap st)"
    | (old) v d where "release_fields su cs = Inr (Some (v, d))"
      "map_of (changes st) v = Some r" "st' = st"
    | (new) v d where "release_fields su cs = Inr (Some (v, d))"
      "map_of (changes st) v = None"
      "st' = st\<lparr>dict_heap := dict_heap st @
                 [[(''version'', PStr v), (''release_date'', PStr d)]],
               changes := changes st @ [(v, length (dict_heap st))]\<rparr>"
      "r = length (dict_heap st)"
proof (cases "release_fields su cs")
  case (Inl e)
  then show ?thesis using step by (simp add: add_release_def and_then_def)
next
  case (Inr found)
  show ?thesis
  proof (cases found)
    case None
    then have "add_release st cs su =
        Inr (st\<lparr>dict_heap := dict_heap st @ [[]]\<rparr>, length (dict_heap st))"
      using Inr by (simp add: add_release_def and_then_def)
    then have "st' = st\<lparr>dict_heap := dict_heap st @ [[]]\<rparr>" "r = length (dict_heap st)"
      using step by simp_all
    then show ?thesis using Inr None skip by blast
  next
    case (Some vd)
    obtain v d where vd: "vd = (v, d)" by (cases vd)
    have rf: "release_fields su cs = Inr (Some (v, d))" using Inr Some vd by simp
    show ?thesis
    proof (cases "map_of (changes st) v")
      case None
      then have "add_release st cs su =
          Inr (st\<lparr>dict_heap := dict_heap st @
                     [[(''version'', PStr v), (''release_date'', PStr d)]],
                   changes := changes st @ [(v, length (dict_heap st))]\<rparr>,
               length (dict_heap st))"
        using rf by (simp add: add_release_def and_then_def)
      then have "st' = st\<lparr>dict_heap := dict_heap st @
                     [[(''version'', PStr v), (''release_date'', PStr d)]],
                   changes := changes st @ [(v, length (dict_heap st))]\<rparr>"
        "r = length (dict_heap st)"
        using step by simp_all
      then show ?thesis using rf None new by blast
    next
      case (Some a)
      then have "add_release st cs su = Inr (st, a)"
        using rf by (simp add: add_release_def and_then_def)
      then have "st' = st" "r = a" using step by simp_all
      then show ?thesis using rf Some old by blast
    qed
  qed
qed

lemma add_category_cases:
  assumes step: "add_category st release cs = Inr (st', c)"
  obtains (old) n where "map_of (dict_heap st ! release) n = Some c" "st' = st"
    | (new) n where "map_of (dict_heap st ! release) n = None"
      "st' = st\<lparr>list_heap := list_heap st @ [[]],
               dict_heap := (dict_heap st)
                 [release := dict_heap st ! release @ [(n, PList (length (list_heap st)))]]\<rparr>"
      "c = PList (length (list_heap st))"
proof (cases "item cs 0")
  case (Inl e)
  then show ?thesis using step by (simp add: add_category_def and_then_def)
next
  case (Inr t)
  show ?thesis
  proof (cases "token_content t")
    case (Inl e)
    then show ?thesis using step Inr by (simp add: add_category_def and_then_def)
  next
    case n: (Inr n)
    show ?thesis
    proof (cases "map_of (dict_heap st ! release) n")
      case None
      then have "add_category st release cs =
          Inr (st\<lparr>list_heap := list_heap st @ [[]],
                   dict_heap := (dict_heap st)
                     [release := dict_heap st ! release @ [(n, PList (length (list_heap st)))]]\<rparr>,
               PList (length (list_heap st)))"
        using Inr n by (simp add: add_category_def and_then_def)
      then have "st' = st\<lparr>list_heap := list_heap st @ [[]],
                   dict_heap := (dict_heap st)
                     [release := dict_heap st ! release @ [(n, PList (length (list_heap st)))]]\<rparr>"
        "c = PList (length (list_heap st))"
        using step by simp_all
      then show ?thesis using None new by blast
    next
      case (Some v)
      then have "add_category st release cs = Inr (st, v)"
        using Inr n by (simp add: add_category_def and_then_def)
      then have "st' = st" "c = v" using step by simp_all
      then show ?thesis using Some old by blast
    qed
  qed
qed

lemma add_release_lists_empty:
  assumes ok: "lists_empty st" and step: "add_release st cs su = Inr (st', r)"
  shows "lists_empty (st'\<lparr>current_release := r\<rparr>)"
  using step
proof (cases rule: add_release_cases)
  case skip
  then show ?thesis
    using ok by (auto simp: lists_empty_def ref_ok_updates list_all_iff less_Suc_eq)
next
  case (old v d)
  have "(v, r) \<in> set (changes st)" using old(2) by (rule map_of_SomeD)
  then have "r < length (dict_heap st)" using ok by (auto simp: lists_empty_def list_all_iff)
  then show ?thesis using ok old by (simp add: lists_empty_def ref_ok_updates)
next
  case (new v d)
  have "ref_ok st (PStr v)" "ref_ok st (PStr d)" by (simp_all add: ref_ok_def)
  then show ?thesis
    using ok new by (auto simp: lists_empty_def ref_ok_updates list_all_iff less_Suc_eq)
qed

lemma add_category_lists_empty:
  assumes ok: "lists_empty st" and step: "add_category st (current_release st) cs = Inr (st', c)"
  shows "lists_empty (st'\<lparr>category := c\<rparr>)"
  using step
proof (cases rule: add_category_cases)
  case (old n)
  let ?d = "dict_heap st ! current_release st"
  have cur: "current_release st < length (dict_heap st)" using ok by (simp add: lists_empty_def)
  have "(n, c) \<in> set ?d" using old(1) by (rule map_of_SomeD)
  moreover have "?d \<in> set (dict_heap st)" using cur by simp
  ultimately have "ref_ok st c" using ok by (fastforce simp: lists_empty_def list_all_iff)
  then show ?thesis using ok old by (simp add: lists_empty_def ref_ok_updates)
next
  case (new n)
  let ?d = "dict_heap st ! current_release st"
  have cur: "current_release st < length (dict_heap st)" using ok by (simp add: lists_empty_def)
  have len: "length (list_heap st') = Suc (length (list_heap st))" using new(2) by simp
  have grow: "ref_ok st' v" if "ref_ok st v" for v
    using that len by (cases v) (simp_all add: ref_ok_def)
  have old_dicts: "ref_ok st v" if "d \<in> set (dict_heap st)" "(k, v) \<in> set d" for d k v
    using ok that by (fastforce simp: lists_empty_def list_all_iff)
  have dicts: "ref_ok st' v" if d: "d \<in> set (dict_heap st')" and kv: "(k, v) \<in> set d" for d k v
  proof -
    have "set (dict_heap st') \<subseteq> insert (?d @ [(n, PList (length (list_heap st)))]) (set (dict_heap st))"
      using new(2) set_update_subset_insert [of "dict_heap st" "current_release st"] by simp
    then have "d \<in> set (dict_heap st) \<or> d = ?d @ [(n, PList (length (list_heap st)))]"
      using d by blast
    then show ?thesis
    proof
      assume "d \<in> set (dict_heap st)"
      then show ?thesis using old_dicts kv grow by blast
    next
      assume e: "d = ?d @ [(n, PList (length (list_heap st)))]"
      show ?thesis
      proof (cases "(k, v) \<in> set ?d")
        case True
        moreover have "?d \<in> set (dict_heap st)" using cur by simp
        ultimately show ?thesis using old_dicts grow by blast
      next
        case False
        then have "v = PList (length (list_heap st))" using e kv by simp
        then show ?thesis using len by (simp add: ref_ok_def)
      qed
    qed
  qed
  have a1: "list_all (\<lambda>l. l = []) (list_heap st')"
    using ok new(2) by (simp add: lists_empty_def)
  have a2: "ref_ok st' c" using new(3) len by (simp add: ref_ok_def)
  have a3: "current_release st' < length (dict_heap st')" using cur new(2) by simp
  have a4: "list_all (\<lambda>(v, a). a < length (dict_heap st')) (changes st')"
    using ok new(2) by (simp add: lists_empty_def)
  have a5: "list_all (\<lambda>d. list_all (\<lambda>(k, v). ref_ok st' v) d) (dict_heap st')"
    using dicts by (auto simp: list_all_iff)
  show ?thesis
    unfolding lists_empty_def using a1 a2 a3 a4 a5 by (simp add: ref_ok_updates)
qed

lemma add_change_list_str:
  "add_change_list st (PStr s) items = Inr st' \<Longrightarrow> st' = st"
  by (cases items) auto

lemma to_dict_step_lists_empty:
  assumes ok: "lists_empty st" and step: "to_dict_step su st s = Inr st'"
  shows "lists_empty st'"
proof (cases "is_release s")
  case True
  obtain st1 r where "add_release st (heading_children s) su = Inr (st1, r)"
    and "st' = st1\<lparr>current_release := r\<rparr>"
    using step True by (auto simp: to_dict_step_def and_then_def split: sum.splits)
  then show ?thesis using add_release_lists_empty [OF ok] by simp
next
  case False
  show ?thesis
  proof (cases "is_category s")
    case True
    obtain st1 c where "add_category st (current_release st) (heading_children s) = Inr (st1, c)"
      and "st' = st1\<lparr>category := c\<rparr>"
      using step True False by (auto simp: to_dict_step_def and_then_def split: sum.splits)
    then show ?thesis using add_category_lists_empty [OF ok] by simp
  next
    case cat: False
    show ?thesis
    proof (cases "is_list s \<and> dict_truthy st (current_release st) \<and> truthy st (category st)")
      case True
      then have run: "add_change_list st (category st) (list_children s) = Inr st'"
        using step False cat by (simp add: to_dict_step_def)
      have "\<exists>t. category st = PStr t"
      proof (cases "category st")
        case (PStr t)
        then show ?thesis by simp
      next
        case (PList a)
        then have "a < length (list_heap st)" using ok by (simp add: lists_empty_def ref_ok_def)
        then have "list_heap st ! a = []" using ok by (simp add: lists_empty_def list_all_length)
        then show ?thesis using True PList by (simp add: truthy_def)
      qed
      then show ?thesis using run add_change_list_str ok by metis
    next
      case no: False
      then have "st' = st" using step False cat by (auto simp: to_dict_step_def)
      then show ?thesis using ok by simp
    qed
  qed
qed

lemma to_dict_loop_lists_empty:
  "lists_empty st \<Longrightarrow> to_dict_loop su st doc = Inr st' \<Longrightarrow> lists_empty st'"
proof (induction doc arbitrary: st)
  case Nil
  then show ?case by simp
next
  case (Cons s doc)
  obtain st1 where st1: "to_dict_step su st s = Inr st1"
    and rest: "to_dict_loop su st1 doc = Inr st'"
    using Cons.prems(2) by (auto split: sum.splits)
  show ?case using Cons.IH [OF to_dict_step_lists_empty [OF Cons.prems(1) st1] rest] .
qed

lemma lists_empty_initial: "lists_empty initial"
  by (simp add: lists_empty_def initial_def ref_ok_def)

text \<open>
  What the document of claim C1 shows holds of every document: no category of a changelog
  that \<^verbatim>\<open>to_dict\<close> returns has an entry.
\<close>

lemma to_dict_records_nothing:
  assumes "to_dict document show_unreleased = Inr res"
    and "(version, release) \<in> set res" and "(name, Entries entries) \<in> set release"
  shows "entries = []"
proof -
  obtain st where loop: "to_dict_loop show_unreleased initial document = Inr st"
    and res: "res = returned st"
    using assms(1) by (auto simp: to_dict_def split: sum.splits)
  have ok: "lists_empty st"
    using to_dict_loop_lists_empty [OF lists_empty_initial loop] .
  obtain a where a: "(version, a) \<in> set (changes st)"
    and rel: "release = map (\<lambda>(k, v). (k, field_of st v)) (dict_heap st ! a)"
    using assms(2) unfolding res returned_def by auto
  obtain v where v: "(name, v) \<in> set (dict_heap st ! a)" and f: "field_of st v = Entries entries"
    using assms(3) unfolding rel by auto
  obtain l where l: "v = PList l" and e: "entries = list_heap st ! l"
    using f by (cases v) (auto simp: field_of_def)
  have "a < length (dict_heap st)" using ok a by (auto simp: lists_empty_def list_all_iff)
  then have "dict_heap st ! a \<in> set (dict_heap st)" by simp
  then have "ref_ok st v" using ok v by (fastforce simp: lists_empty_def list_all_iff)
  then have "l < length (list_heap st)" using l by (simp add: ref_ok_def)
  then show ?thesis using ok e by (simp add: lists_empty_def list_all_length)
qed

end
